theory Spec2Isabelle
  imports Main "HOL-Library.Sublist"
begin

text \<open>
  The content pipeline of NeuralStack: the article generator and the content stage of
  \<^verbatim>\<open>agents/content.py\<close> and the orchestrator of \<^verbatim>\<open>main.py\<close>. Strings are lists of code
  points, exceptions are values, a loop without a bound may fail to return. What the code
  takes from outside is a parameter: the clock, the Unicode database beyond ASCII, the
  content of the performance file and the three stages that live in other modules.
  Failures of the file system while writing (the log, the ledger) are not modelled.
\<close>

section \<open>Python strings\<close>

text \<open>
  A Python \<^verbatim>\<open>str\<close> is a sequence of Unicode code points, so \<^verbatim>\<open>len\<close> and slicing count
  code points. The model keeps that: a string is a list of code points, each a natural
  number (the value of \<^verbatim>\<open>ord\<close>). ASCII literals of the source are written with \<open>lit\<close>;
  the two non-ASCII characters of the templates (the dashes U+2013 and U+2014) are written
  as their code points.
\<close>

type_synonym str = "nat list"

definition lit :: "string \<Rightarrow> str" where
  "lit s = map of_char s"

text \<open>
  The whitespace of \<^verbatim>\<open>str.split()\<close>, \<^verbatim>\<open>str.strip()\<close> and \<^verbatim>\<open>str.isspace()\<close>: the complete
  list of code points CPython treats as whitespace.
\<close>

definition isspace :: "nat \<Rightarrow> bool" where
  "isspace c \<longleftrightarrow> (9 \<le> c \<and> c \<le> 13) \<or> (28 \<le> c \<and> c \<le> 32) \<or> c = 133 \<or> c = 160
     \<or> c = 5760 \<or> (8192 \<le> c \<and> c \<le> 8202) \<or> c = 8232 \<or> c = 8233 \<or> c = 8239
     \<or> c = 8287 \<or> c = 12288"

text \<open>
  \<^verbatim>\<open>s.split()\<close>: the maximal runs of non-whitespace characters, in order. \<open>w\<close> is the
  word being read.
\<close>

fun split_acc :: "str \<Rightarrow> str \<Rightarrow> str list" where
  "split_acc w [] = (if w = [] then [] else [w])"
| "split_acc w (c # s) =
     (if isspace c then (if w = [] then split_acc [] s else w # split_acc [] s)
      else split_acc (w @ [c]) s)"

definition str_split :: "str \<Rightarrow> str list" where
  "str_split s = split_acc [] s"

text \<open>\<^verbatim>\<open>s.split(d)\<close> for a one-character separator \<open>d\<close>: empty pieces are kept.
  \<open>w\<close> is the piece being read.\<close>

fun split_on_acc :: "nat \<Rightarrow> str \<Rightarrow> str \<Rightarrow> str list" where
  "split_on_acc d w [] = [w]"
| "split_on_acc d w (c # s) =
     (if c = d then w # split_on_acc d [] s else split_on_acc d (w @ [c]) s)"

definition split_on :: "nat \<Rightarrow> str \<Rightarrow> str list" where
  "split_on d s = split_on_acc d [] s"

text \<open>\<^verbatim>\<open>sep.join(xs)\<close>.\<close>

fun join :: "str \<Rightarrow> str list \<Rightarrow> str" where
  "join sep [] = []"
| "join sep [x] = x"
| "join sep (x # y # xs) = x @ sep @ join sep (y # xs)"

text \<open>\<^verbatim>\<open>s.strip()\<close> removes leading and trailing whitespace; \<^verbatim>\<open>s.strip(chars)\<close> removes
  leading and trailing characters that occur in \<open>chars\<close>.\<close>

definition str_strip :: "str \<Rightarrow> str" where
  "str_strip s = rev (dropWhile isspace (rev (dropWhile isspace s)))"

definition strip_chars :: "str \<Rightarrow> str \<Rightarrow> str" where
  "strip_chars chars s =
     rev (dropWhile (\<lambda>c. c \<in> set chars) (rev (dropWhile (\<lambda>c. c \<in> set chars) s)))"

subsection \<open>textwrap.dedent\<close>

text \<open>
  \<^verbatim>\<open>textwrap.dedent\<close> of the standard library (the implementation of CPython up to 3.13):
  lines made of spaces and tabs only become empty, the margin is the longest string of
  spaces and tabs that starts every remaining non-empty line, and it is removed from the
  lines that start with it. Lines are the pieces between line feeds.
\<close>

definition is_blank :: "nat \<Rightarrow> bool" where
  "is_blank c \<longleftrightarrow> c = 32 \<or> c = 9"

definition margin_step :: "str option \<Rightarrow> str \<Rightarrow> str option" where
  "margin_step margin indent =
     (case margin of
        None \<Rightarrow> Some indent
      | Some m \<Rightarrow>
          if prefix m indent then Some m
          else if prefix indent m then Some indent
          else Some (longest_common_prefix m indent))"

definition dedent :: "str \<Rightarrow> str" where
  "dedent text =
     (let ls = map (\<lambda>l. if l \<noteq> [] \<and> list_all is_blank l then [] else l) (split_on 10 text);
          indents = map (takeWhile is_blank) (filter (\<lambda>l. l \<noteq> []) ls);
          margin = foldl margin_step None indents
      in case margin of
           None \<Rightarrow> join [10] ls
         | Some m \<Rightarrow>
             if m = [] then join [10] ls
             else join [10] (map (\<lambda>l. if prefix m l then drop (length m) l else l) ls))"

section \<open>The article generator (agents/content.py)\<close>

definition MIN_WORDS :: nat where
  "MIN_WORDS = 1200"

subsection \<open>The section templates\<close>

text \<open>
  Each template is the triple-quoted literal of the source, line by line; \<open>keyword\<close> and
  \<open>now\<close> are the interpolated values of the two f-strings.
\<close>

definition intro_text :: "str \<Rightarrow> str \<Rightarrow> str" where
  \<open>intro_text keyword now = join (lit ''\<newline>'')
    [[],
     lit ''            # '' @ keyword,
     [],
     lit ''            As a practitioner who cares about maintainable systems and realistic trade-offs,'',
     lit ''            this guide walks through **real-world considerations** instead of fluffy marketing.'',
     lit ''            The goal is to help you make a confident decision about your tooling and architecture,'',
     lit ''            using language that any experienced engineer or tech lead would recognise.'',
     [],
     lit ''            In this article you will learn:'',
     [],
     lit ''            - How this topic fits into modern engineering workflows'',
     lit ''            - Concrete pros and cons you can explain to stakeholders'',
     lit ''            - Implementation patterns, edge cases, and failure modes to watch out for'',
     lit ''            - How to decide whether to adopt, migrate, or wait'',
     [],
     lit ''            All explanations target engineers shipping production systems in '' @ now @ lit ''.'',
     lit ''            '']\<close>

definition h2_architecture_text :: "str" where
  \<open>h2_architecture_text = join (lit ''\<newline>'')
    [[],
     lit ''            ## Core concepts and mental models'',
     [],
     lit ''            Before we dive into specific tools, it is useful to step back and describe'',
     lit ''            the core mental models behind this topic. When you understand the moving'',
     lit ''            pieces conceptually, you become far less dependent on any single vendor'',
     lit ''            or framework.'',
     [],
     lit ''            Think about:'',
     [],
     lit ''            - The boundary between local development and production deployment'',
     lit ''            - Where state is stored and how it flows through the system'',
     lit ''            - Which teams own which layers of the stack'',
     lit ''            - What "done" means in terms of observability, reliability, and security'',
     [],
     lit ''            Even simple sounding decisions, such as choosing one editor or plugin'',
     lit ''            over another, tend to compound over years as teams, codebases, and'',
     lit ''            infrastructure evolve.'',
     lit ''            '']\<close>

definition h2_use_cases_text :: "str \<Rightarrow> str" where
  \<open>h2_use_cases_text keyword = join (lit ''\<newline>'')
    [[],
     lit ''            ## High-intent use cases and user journeys'',
     [],
     lit ''            Search intent around this topic is rarely casual. Engineers typing'',
     lit ''            queries such as "'' @ keyword @ lit ''" are normally stuck on:'',
     [],
     lit ''            - A migration project with hard deadlines'',
     lit ''            - A compatibility issue blocking deployment'',
     lit ''            - A build, test, or debug workflow that has become painfully slow'',
     [],
     lit ''            When evaluating options, anchor on the **specific journeys**:'',
     [],
     lit ''            1. A new contributor cloning the repo and becoming productive.'',
     lit ''            2. A senior engineer debugging intermittent failures under load.'',
     lit ''            3. An ops team keeping the system observable, patchable, and auditable.'',
     lit ''            4. A tech lead justifying the stack to non-technical stakeholders.'',
     lit ''            '']\<close>

definition h2_comparisons_text :: "str" where
  \<open>h2_comparisons_text = join (lit ''\<newline>'')
    [[],
     lit ''            ## Nuanced comparisons instead of hype'',
     [],
     lit ''            Tool comparisons often degenerate into unhelpful debates. A more'',
     lit ''            responsible way to reason about options is to define a shortlist of'',
     lit ''            evaluation criteria and then score each option in context.'',
     [],
     lit ''            Recommended lenses:'',
     [],
     lit ''            - Learning curve and onboarding experience'',
     lit ''            - Ecosystem maturity and plugin quality'',
     lit ''            - Failure behaviour and how issues surface during incidents'',
     lit ''            - Long-term maintainability for a growing team'',
     lit ''            - Vendor risk and lock-in mitigation strategies'',
     [],
     lit ''            When you read benchmarks or case studies, pause and ask whether the'',
     lit ''            environment, team skills, and risk profile actually match yours.'',
     lit ''            '']\<close>

definition h2_arch_table_text :: "str" where
  \<open>h2_arch_table_text = join (lit ''\<newline>'')
    [[],
     lit ''            ## Architecture and workflow comparison table'',
     [],
     lit ''            | Dimension                 | Conservative choice                    | Progressive choice                         |'',
     lit ''            |---------------------------|----------------------------------------|--------------------------------------------|'',
     lit ''            | Primary optimisation      | Stability and predictability           | Velocity and expressiveness               |'',
     lit ''            | Tooling customisation     | Minimal, opinionated defaults          | Deep, scriptable, highly extensible       |'',
     lit ''            | Ideal team size           | Large orgs with multiple squads        | Small, senior-heavy product teams         |'',
     lit ''            | Operational burden        | Lower, easier to standardise           | Higher, needs clear ownership             |'',
     lit ''            | Risk of lock-in           | Moderate, but manageable               | Depends heavily on integration strategy   |'',
     [],
     lit ''            The right answer is rarely at either extreme. Most organisations end up'',
     lit ''            standardising on a conservative baseline while enabling power users to'',
     lit ''            extend their local workflows where it genuinely pays off.'',
     lit ''            '']\<close>

definition h2_impl_text :: "str" where
  \<open>h2_impl_text = join (lit ''\<newline>'')
    [[],
     lit ''            ## Implementation guidelines and failure modes'',
     [],
     lit ''            From an implementation perspective, treat configuration as code and'',
     lit ''            invest early in reproducible environments. A few practical guidelines:'',
     [],
     lit ''            - Keep environment setup scripted and version-controlled.'',
     lit ''            - Capture decisions in lightweight design docs instead of tribal knowledge.'',
     lit ''            - Add smoke tests to catch obvious misconfigurations before release.'',
     lit ''            - Decide what "good enough" observability looks like before scaling usage.'',
     [],
     lit ''            Common failure modes include silent configuration drift, unclear'',
     lit ''            ownership of tooling, and one-off shell scripts that become accidental'',
     lit ''            production dependencies.'',
     lit ''            '']\<close>

definition h2_affiliates_text :: "str" where
  \<open>h2_affiliates_text = join (lit ''\<newline>'')
    [[],
     lit ''            ## Recommended tools and resources (affiliate-ready)'',
     [],
     lit ''            The following slots are intentionally left as **affiliate placeholders**.'',
     lit ''            Replace them with tools that you genuinely recommend and that you or'',
     lit ''            your organisation have tested in real projects.'',
     [],
     lit ''            - {{AFFILIATE_TOOL_1}} '' @ [8212] @ lit '' primary editor or IDE partner'',
     lit ''            - {{AFFILIATE_TOOL_2}} '' @ [8212] @ lit '' observability or monitoring solution'',
     lit ''            - {{AFFILIATE_TOOL_3}} '' @ [8212] @ lit '' managed hosting, CI, or security scanner'',
     [],
     lit ''            Transparency matters: clearly label commercial relationships and always'',
     lit ''            prioritise developer experience over commission size.'',
     lit ''            '']\<close>

definition h2_faq_text :: "str" where
  \<open>h2_faq_text = join (lit ''\<newline>'')
    [[],
     lit ''            ## Frequently asked questions'',
     [],
     lit ''            ### Is it safe to standardise on a single tool?'',
     [],
     lit ''            Standardisation helps reduce cognitive overhead, but you should still'',
     lit ''            leave room for exceptions. Allow power users to diverge when they'',
     lit ''            can demonstrate clear upside and are willing to document their setup.'',
     [],
     lit ''            ### How often should we revisit our tooling choices?'',
     [],
     lit ''            In most teams, a light review every 12'' @ [8211] @ lit ''18 months is enough. The goal'',
     lit ''            is not to chase trends, but to make sure your defaults do not become'',
     lit ''            an unexamined constraint that quietly slows product delivery.'',
     [],
     lit ''            ### How can we evaluate claims in benchmarks and vendor content?'',
     [],
     lit ''            Treat glossy benchmarks as a starting point, not a conclusion. Recreate'',
     lit ''            the critical paths from your own system and run targeted experiments'',
     lit ''            under realistic constraints, including network conditions and data size.'',
     lit ''            '']\<close>

definition h2_conclusion_text :: "str" where
  \<open>h2_conclusion_text = join (lit ''\<newline>'')
    [[],
     lit ''            ## Conclusion: how to move forward thoughtfully'',
     [],
     lit ''            The most sustainable decisions are usually boring from the outside.'',
     lit ''            Instead of chasing the newest stack, identify the smallest set of'',
     lit ''            changes that meaningfully de-risk your roadmap and improve developer'',
     lit ''            quality of life.'',
     [],
     lit ''            Make adoption explicit, reversible, and well-documented. Capture what'',
     lit ''            you tried, what worked, and what you decided not to pursue yet. That'',
     lit ''            historical context will save future teams enormous amounts of time'',
     lit ''            and prevent expensive re-litigations of settled questions.'',
     lit ''            '']\<close>

definition padding :: str where
  "padding =
     lit '' In practice, each organisation should run small, low-risk experiments, ''
     @ lit ''observe the operational impact over several weeks, and only then roll out ''
     @ lit ''broader changes. Document the trade-offs clearly so that future engineers ''
     @ lit ''can understand not just what you chose, but why other options were rejected.''"

subsection \<open>generate_long_form_article\<close>

text \<open>
  \<open>now\<close> is the value of \<^verbatim>\<open>datetime.utcnow().strftime("%B %Y")\<close> read at the start of
  the call. Each section is the dedented, stripped template.
\<close>

definition intro :: "str \<Rightarrow> str \<Rightarrow> str" where
  "intro keyword now = str_strip (dedent (intro_text keyword now))"

definition h2_architecture :: str where
  "h2_architecture = str_strip (dedent h2_architecture_text)"

definition h2_use_cases :: "str \<Rightarrow> str" where
  "h2_use_cases keyword = str_strip (dedent (h2_use_cases_text keyword))"

definition h2_comparisons :: str where
  "h2_comparisons = str_strip (dedent h2_comparisons_text)"

definition h2_arch_table :: str where
  "h2_arch_table = str_strip (dedent h2_arch_table_text)"

definition h2_impl :: str where
  "h2_impl = str_strip (dedent h2_impl_text)"

definition h2_affiliates :: str where
  "h2_affiliates = str_strip (dedent h2_affiliates_text)"

definition h2_faq :: str where
  "h2_faq = str_strip (dedent h2_faq_text)"

definition h2_conclusion :: str where
  "h2_conclusion = str_strip (dedent h2_conclusion_text)"

definition body_sections :: "str \<Rightarrow> str \<Rightarrow> str list" where
  "body_sections keyword now =
     [intro keyword now, h2_architecture, h2_use_cases keyword, h2_comparisons,
      h2_arch_table, h2_impl, h2_affiliates, h2_faq, h2_conclusion]"

text \<open>The document before the minimum-length check.\<close>

definition compose :: "str \<Rightarrow> str \<Rightarrow> str" where
  "compose keyword now = join (lit ''\<newline>\<newline>'') (body_sections keyword now)"

text \<open>One round of the padding loop: \<^verbatim>\<open>content += "\n\n" + padding\<close>.\<close>

definition append_padding :: "str \<Rightarrow> str" where
  "append_padding content = content @ (lit ''\<newline>\<newline>'' @ padding)"

text \<open>
  The loop \<^verbatim>\<open>while len(words) < MIN_WORDS\<close>, on the two variables it updates. The
  source gives no bound on its rounds, so the model does not either: \<open>None\<close> is a loop
  that never ends.
\<close>

partial_function (option) pad_loop :: "str \<Rightarrow> str list \<Rightarrow> str option" where
  "pad_loop content words =
     (if length words < MIN_WORDS
      then pad_loop (append_padding content) (str_split (append_padding content))
      else Some content)"

declare pad_loop.simps [code]

definition generate_long_form_article :: "str \<Rightarrow> str \<Rightarrow> str \<Rightarrow> str \<Rightarrow> str option" where
  "generate_long_form_article now keyword category intent =
     (let content = compose keyword now;
          words = str_split content
      in if length words < MIN_WORDS then pad_loop content words else Some content)"

section \<open>The content stage (agents/content.py)\<close>

subsection \<open>Slug derivation\<close>

text \<open>
  \<^verbatim>\<open>c.isalnum()\<close> and \<^verbatim>\<open>c.lower()\<close> read the Unicode database of the interpreter. On
  ASCII they are fixed and written out; beyond ASCII the database is a parameter.
  \<^verbatim>\<open>c.lower()\<close> returns a string: one code point may lower to several.
\<close>

record unicode_db =
  alnum_db :: "nat \<Rightarrow> bool"
  lower_db :: "nat \<Rightarrow> str"

definition isalnum :: "unicode_db \<Rightarrow> nat \<Rightarrow> bool" where
  "isalnum U c =
     (if c < 128 then (48 \<le> c \<and> c \<le> 57) \<or> (65 \<le> c \<and> c \<le> 90) \<or> (97 \<le> c \<and> c \<le> 122)
      else alnum_db U c)"

definition lower :: "unicode_db \<Rightarrow> nat \<Rightarrow> str" where
  "lower U c =
     (if c < 128 then (if 65 \<le> c \<and> c \<le> 90 then [c + 32] else [c])
      else lower_db U c)"

text \<open>\<^verbatim>\<open>"--" in slug\<close> and \<^verbatim>\<open>slug.replace("--", "-")\<close>: the replacement scans from the
  left and does not look again at what it has written. The hyphen is code point 45.\<close>

fun contains_double_hyphen :: "str \<Rightarrow> bool" where
  "contains_double_hyphen (a # b # s) =
     ((a = 45 \<and> b = 45) \<or> contains_double_hyphen (b # s))"
| "contains_double_hyphen s = False"

fun replace_double_hyphen :: "str \<Rightarrow> str" where
  "replace_double_hyphen (a # b # s) =
     (if a = 45 \<and> b = 45 then 45 # replace_double_hyphen s
      else a # replace_double_hyphen (b # s))"
| "replace_double_hyphen s = s"

text \<open>The loop \<^verbatim>\<open>while "--" in slug: slug = slug.replace("--", "-")\<close>. Every round
  shortens the slug.\<close>

function collapse_hyphens :: "str \<Rightarrow> str" where
  "collapse_hyphens slug =
     (if contains_double_hyphen slug then collapse_hyphens (replace_double_hyphen slug)
      else slug)"
  by pat_completeness auto
termination
proof (relation "measure length")
  show "wf (measure length)" by simp
next
  fix slug :: str
  assume "contains_double_hyphen slug"
  then have "length (replace_double_hyphen slug) < length slug"
  proof (induction slug rule: replace_double_hyphen.induct)
    case (1 a b s)
    have "length (replace_double_hyphen s) \<le> length s" for s
      by (induction s rule: replace_double_hyphen.induct) auto
    with 1 show ?case by (auto simp: le_imp_less_Suc)
  qed simp_all
  then show "(replace_double_hyphen slug, slug) \<in> measure length" by simp
qed

declare collapse_hyphens.simps [simp del]

definition slugify :: "unicode_db \<Rightarrow> str \<Rightarrow> str" where
  "slugify U text =
     (let slug = concat (map (\<lambda>c. if isalnum U c then lower U c else lit ''-'') text);
          slug = collapse_hyphens slug
      in take 80 (strip_chars (lit ''-'') slug))"

subsection \<open>ContentAgent.run\<close>

text \<open>
  A topic is a dictionary from field names to strings. A draft is the dataclass of the
  source.
\<close>

type_synonym topic = "str \<rightharpoonup> str"

record DraftArticle =
  topic_id :: str
  title :: str
  slug :: str
  content :: str
  created_at :: str

text \<open>
  An exception raised by a stage: \<open>KeyError k\<close> for the missing key \<open>k\<close>,
  \<open>OtherException m\<close> for any other exception derived from \<^verbatim>\<open>Exception\<close> whose
  \<^verbatim>\<open>str()\<close> is \<open>m\<close>, \<open>NonException\<close> for one that is not derived from \<^verbatim>\<open>Exception\<close>
  (\<^verbatim>\<open>KeyboardInterrupt\<close>, \<^verbatim>\<open>SystemExit\<close>). A call returns, raises, or never returns.
\<close>

datatype exn = KeyError str | OtherException str | NonException

datatype 'a outcome = Return 'a | Raise exn | Diverge

text \<open>
  The clock: \<open>month_year clk k\<close> and \<open>isoformat clk k\<close> are the renderings
  \<^verbatim>\<open>strftime("%B %Y")\<close> and \<^verbatim>\<open>isoformat()\<close> of the \<open>k\<close>-th reading of
  \<^verbatim>\<open>datetime.utcnow()\<close>. The functions below take the number of readings made so far.
\<close>

record clock =
  month_year :: "nat \<Rightarrow> str"
  isoformat :: "nat \<Rightarrow> str"

text \<open>\<^verbatim>\<open>topic.get(key, "")\<close>.\<close>

definition get_or_empty :: "topic \<Rightarrow> str \<Rightarrow> str" where
  "get_or_empty t key = (case t key of None \<Rightarrow> [] | Some v \<Rightarrow> v)"

text \<open>
  The body of the loop for one topic, in the order of the source: the keyword is read
  first, the article is generated (one reading of the clock), the time stamp is taken (a
  second reading), and the id is read when the draft is built.
\<close>

definition make_draft :: "unicode_db \<Rightarrow> clock \<Rightarrow> nat \<Rightarrow> topic \<Rightarrow> DraftArticle outcome" where
  "make_draft U clk k t =
     (case t (lit ''keyword'') of
        None \<Rightarrow> Raise (KeyError (lit ''keyword''))
      | Some keyword \<Rightarrow>
          let title = keyword;
              slug = slugify U title
          in
          (case generate_long_form_article (month_year clk k) keyword
                  (get_or_empty t (lit ''category'')) (get_or_empty t (lit ''intent'')) of
             None \<Rightarrow> Diverge
           | Some text \<Rightarrow>
               let content = text;
                   created_at = isoformat clk (k + 1) @ lit ''Z''
               in
               (case t (lit ''id'') of
                  None \<Rightarrow> Raise (KeyError (lit ''id''))
                | Some i \<Rightarrow>
                    Return \<lparr>topic_id = i, title = title, slug = slug, content = content,
                            created_at = created_at\<rparr>)))"

text \<open>The loop over the topics; \<open>drafts\<close> is the list built so far. An exception leaves
  the loop and the list is lost.\<close>

fun run_loop ::
  "unicode_db \<Rightarrow> clock \<Rightarrow> nat \<Rightarrow> DraftArticle list \<Rightarrow> topic list \<Rightarrow> DraftArticle list outcome"
where
  "run_loop U clk k drafts [] = Return drafts"
| "run_loop U clk k drafts (t # topics) =
     (case make_draft U clk k t of
        Return d \<Rightarrow> run_loop U clk (k + 2) (drafts @ [d]) topics
      | Raise e \<Rightarrow> Raise e
      | Diverge \<Rightarrow> Diverge)"

definition run :: "unicode_db \<Rightarrow> clock \<Rightarrow> nat \<Rightarrow> topic list \<Rightarrow> DraftArticle list outcome" where
  "run U clk k topics = run_loop U clk k [] topics"

section \<open>The orchestrator (main.py)\<close>

subsection \<open>The performance ledger\<close>

text \<open>
  What \<^verbatim>\<open>json.loads\<close> returns: the ledger is whatever value the file holds, not a
  checked structure. A dictionary keeps its keys in insertion order. Numbers are
  integers, the only numbers the pipeline writes; a ledger file with a fractional number
  is outside the model.
\<close>

datatype pyval =
    PNone
  | PBool bool
  | PInt int
  | PStr str
  | PList "pyval list"
  | PDict "(str \<times> pyval) list"

text \<open>The performance file on disk: absent, present but unreadable or not JSON
  (\<^verbatim>\<open>read_text\<close> or \<^verbatim>\<open>json.loads\<close> raises), or holding a JSON value.\<close>

datatype perf_file = Absent | Unusable | Json pyval

definition empty_ledger :: pyval where
  "empty_ledger =
     PDict [(lit ''runs'', PList []), (lit ''articles_published'', PInt 0),
            (lit ''last_run'', PNone), (lit ''errors'', PList [])]"

text \<open>\<^verbatim>\<open>ensure_initial_files\<close>, on the performance file: written only when absent.\<close>

definition ensure_initial_files :: "perf_file \<Rightarrow> perf_file" where
  "ensure_initial_files f = (case f of Absent \<Rightarrow> Json empty_ledger | _ \<Rightarrow> f)"

definition load_performance :: "perf_file \<Rightarrow> pyval" where
  "load_performance f = (case f of Json v \<Rightarrow> v | _ \<Rightarrow> empty_ledger)"

subsection \<open>The run entry\<close>

record run_entry =
  timestamp :: str
  status :: str
  generated_topics :: nat
  generated_articles :: nat
  published_articles :: nat
  errors :: "str list"

text \<open>The entry as the dictionary that is appended to the ledger.\<close>

definition entry_dict :: "run_entry \<Rightarrow> pyval" where
  "entry_dict e =
     PDict [(lit ''timestamp'', PStr (timestamp e)), (lit ''status'', PStr (status e)),
            (lit ''generated_topics'', PInt (int (generated_topics e))),
            (lit ''generated_articles'', PInt (int (generated_articles e))),
            (lit ''published_articles'', PInt (int (published_articles e))),
            (lit ''errors'', PList (map PStr (errors e)))]"

subsection \<open>The stages\<close>

text \<open>
  Discovery, validation and distribution are not part of this code: each is a parameter
  that returns or raises. \<open>stages\<close> is the body of the \<^verbatim>\<open>try\<close>: it returns the entry as
  far as it was filled in and the exception that ended it, if any.
\<close>

definition stages ::
  "unicode_db \<Rightarrow> clock \<Rightarrow> exn + topic list \<Rightarrow> (DraftArticle list \<Rightarrow> exn + DraftArticle list)
     \<Rightarrow> (DraftArticle list \<Rightarrow> exn + str list) \<Rightarrow> run_entry \<Rightarrow> (run_entry \<times> exn option) option"
where
  "stages U clk discovery validation distribution e =
     (case discovery of
        Inl x \<Rightarrow> Some (e, Some x)
      | Inr new_topics \<Rightarrow>
          let e = e\<lparr>generated_topics := length new_topics\<rparr> in
          (case run U clk 1 new_topics of
             Diverge \<Rightarrow> None
           | Raise x \<Rightarrow> Some (e, Some x)
           | Return drafts \<Rightarrow>
               let e = e\<lparr>generated_articles := length drafts\<rparr> in
               (case validation drafts of
                  Inl x \<Rightarrow> Some (e, Some x)
                | Inr approved_drafts \<Rightarrow>
                    (case distribution approved_drafts of
                       Inl x \<Rightarrow> Some (e, Some x)
                     | Inr published_files \<Rightarrow>
                         Some (e\<lparr>published_articles := length published_files,
                                 status := lit ''success''\<rparr>, None)))))"

text \<open>\<^verbatim>\<open>except Exception as exc\<close>: \<open>caught x\<close> is \<^verbatim>\<open>str(exc)\<close> when the clause catches
  \<open>x\<close>. The \<^verbatim>\<open>str()\<close> of a \<^verbatim>\<open>KeyError\<close> is its key in quotes.\<close>

fun caught :: "exn \<Rightarrow> str option" where
  "caught (KeyError key) = Some ([39] @ key @ [39])"
| "caught (OtherException m) = Some m"
| "caught NonException = None"

definition handle :: "run_entry \<times> exn option \<Rightarrow> run_entry \<times> exn option" where
  "handle r =
     (case r of
        (e, None) \<Rightarrow> (e, None)
      | (e, Some x) \<Rightarrow>
          (case caught x of
             Some m \<Rightarrow> (e\<lparr>status := lit ''failed'', errors := errors e @ [m]\<rparr>, None)
           | None \<Rightarrow> (e, Some x)))"

subsection \<open>The finally block\<close>

text \<open>
  What goes wrong when the loaded value does not have the shape the block expects:
  \<^verbatim>\<open>KeyError\<close> for a missing key, \<^verbatim>\<open>TypeError\<close> for a value that cannot be subscripted
  by a string or added to an integer, \<^verbatim>\<open>AttributeError\<close> for a value without \<^verbatim>\<open>append\<close>
  or \<^verbatim>\<open>extend\<close>.
\<close>

datatype ledger_error = LedgerKeyError str | LedgerTypeError | LedgerAttributeError

text \<open>\<^verbatim>\<open>d[key] = v\<close> on a dictionary: in place when the key is there, at the end
  otherwise.\<close>

fun setitem :: "(str \<times> pyval) list \<Rightarrow> str \<Rightarrow> pyval \<Rightarrow> (str \<times> pyval) list" where
  "setitem [] key v = [(key, v)]"
| "setitem ((k, w) # d) key v = (if k = key then (k, v) # d else (k, w) # setitem d key v)"

text \<open>\<^verbatim>\<open>d.get(key, default)\<close>.\<close>

definition get_default :: "(str \<times> pyval) list \<Rightarrow> str \<Rightarrow> pyval \<Rightarrow> pyval" where
  "get_default d key dflt = (case map_of d key of None \<Rightarrow> dflt | Some v \<Rightarrow> v)"

text \<open>\<^verbatim>\<open>v + n\<close> for an integer \<open>n\<close>: defined on integers and booleans.\<close>

fun add_int :: "pyval \<Rightarrow> int \<Rightarrow> ledger_error + pyval" where
  "add_int (PInt a) n = Inr (PInt (a + n))"
| "add_int (PBool b) n = Inr (PInt (of_bool b + n))"
| "add_int v n = Inl LedgerTypeError"

text \<open>\<^verbatim>\<open>v.append(x)\<close> and \<^verbatim>\<open>v.extend(xs)\<close>: defined on lists.\<close>

fun extend :: "pyval \<Rightarrow> pyval list \<Rightarrow> ledger_error + pyval" where
  "extend (PList vs) xs = Inr (PList (vs @ xs))"
| "extend v xs = Inl LedgerAttributeError"

definition finalize :: "pyval \<Rightarrow> run_entry \<Rightarrow> ledger_error + pyval" where
  "finalize performance e =
     (case performance of
        PDict d \<Rightarrow>
          (case map_of d (lit ''runs'') of
             None \<Rightarrow> Inl (LedgerKeyError (lit ''runs''))
           | Some runs \<Rightarrow>
               (case extend runs [entry_dict e] of
                  Inl err \<Rightarrow> Inl err
                | Inr runs' \<Rightarrow>
                    let d = setitem d (lit ''runs'') runs';
                        d = setitem d (lit ''last_run'') (PStr (timestamp e))
                    in (case add_int (get_default d (lit ''articles_published'') (PInt 0))
                               (int (published_articles e)) of
                          Inl err \<Rightarrow> Inl err
                        | Inr published \<Rightarrow>
                            let d = setitem d (lit ''articles_published'') published in
                            (case extend (get_default d (lit ''errors'') (PList []))
                                    (map PStr (errors e)) of
                               Inl err \<Rightarrow> Inl err
                             | Inr performance_errors \<Rightarrow>
                                 Inr (PDict (setitem d (lit ''errors'') performance_errors))))))
      | _ \<Rightarrow> Inl LedgerTypeError)"

subsection \<open>run_pipeline\<close>

text \<open>
  The result of one invocation: the run entry as the finally block saw it, the ledger
  handed to \<^verbatim>\<open>save_performance\<close> (\<open>None\<close> when the block did not get there), and the
  exception that leaves \<^verbatim>\<open>run_pipeline\<close>, from a stage or from the finally block.
\<close>

record pipeline_result =
  entry :: run_entry
  saved :: "pyval option"
  raised :: "(exn + ledger_error) option"

definition run_pipeline ::
  "unicode_db \<Rightarrow> clock \<Rightarrow> perf_file \<Rightarrow> exn + topic list
     \<Rightarrow> (DraftArticle list \<Rightarrow> exn + DraftArticle list)
     \<Rightarrow> (DraftArticle list \<Rightarrow> exn + str list) \<Rightarrow> pipeline_result option"
where
  "run_pipeline U clk file discovery validation distribution =
     (let performance = load_performance (ensure_initial_files file);
          run_entry = \<lparr>timestamp = isoformat clk 0 @ lit ''Z'', status = lit ''started'',
                       generated_topics = 0, generated_articles = 0,
                       published_articles = 0, errors = []\<rparr>
      in case stages U clk discovery validation distribution run_entry of
           None \<Rightarrow> None
         | Some r \<Rightarrow>
             (case handle r of
                (e, pending) \<Rightarrow>
                  (case finalize performance e of
                     Inl err \<Rightarrow> Some \<lparr>entry = e, saved = None, raised = Some (Inr err)\<rparr>
                   | Inr p \<Rightarrow> Some \<lparr>entry = e, saved = Some p,
                                     raised = map_option Inl pending\<rparr>)))"

subsection \<open>Reading a ledger\<close>

text \<open>
  The data model of the specification, as predicates on loaded values: a run entry and
  a performance ledger are dictionaries with the documented fields of the documented
  types. The observations below read the fields of such a value.
\<close>

definition field :: "pyval \<Rightarrow> str \<Rightarrow> pyval option" where
  "field v key = (case v of PDict d \<Rightarrow> map_of d key | _ \<Rightarrow> None)"

fun is_int :: "pyval \<Rightarrow> bool" where
  "is_int (PInt n) = True"
| "is_int v = False"

fun is_str :: "pyval \<Rightarrow> bool" where
  "is_str (PStr s) = True"
| "is_str v = False"

fun is_str_or_none :: "pyval \<Rightarrow> bool" where
  "is_str_or_none (PStr s) = True"
| "is_str_or_none PNone = True"
| "is_str_or_none v = False"

fun is_str_list :: "pyval \<Rightarrow> bool" where
  "is_str_list (PList vs) = list_all is_str vs"
| "is_str_list v = False"

definition has :: "(pyval \<Rightarrow> bool) \<Rightarrow> pyval \<Rightarrow> str \<Rightarrow> bool" where
  "has P v key = (case field v key of Some x \<Rightarrow> P x | None \<Rightarrow> False)"

definition is_run_entry :: "pyval \<Rightarrow> bool" where
  "is_run_entry v \<longleftrightarrow>
     has is_str v (lit ''timestamp'') \<and> has is_str v (lit ''status'')
     \<and> has is_int v (lit ''generated_topics'') \<and> has is_int v (lit ''generated_articles'')
     \<and> has is_int v (lit ''published_articles'') \<and> has is_str_list v (lit ''errors'')"

fun is_entry_list :: "pyval \<Rightarrow> bool" where
  "is_entry_list (PList vs) = list_all is_run_entry vs"
| "is_entry_list v = False"

definition is_ledger :: "pyval \<Rightarrow> bool" where
  "is_ledger p \<longleftrightarrow>
     has is_entry_list p (lit ''runs'') \<and> has is_int p (lit ''articles_published'')
     \<and> has is_str_or_none p (lit ''last_run'') \<and> has is_str_list p (lit ''errors'')"

definition list_field :: "pyval \<Rightarrow> str \<Rightarrow> pyval list" where
  "list_field v key = (case field v key of Some (PList vs) \<Rightarrow> vs | _ \<Rightarrow> [])"

definition int_field :: "pyval \<Rightarrow> str \<Rightarrow> int" where
  "int_field v key = (case field v key of Some (PInt n) \<Rightarrow> n | _ \<Rightarrow> 0)"

text \<open>The invariant of the ledger: the counter is the sum of the runs' counts, the
  error list is the runs' error lists one after the other.\<close>

definition ledger_inv :: "pyval \<Rightarrow> bool" where
  "ledger_inv p \<longleftrightarrow>
     is_ledger p
     \<and> int_field p (lit ''articles_published'')
         = sum_list (map (\<lambda>r. int_field r (lit ''published_articles'')) (list_field p (lit ''runs'')))
     \<and> list_field p (lit ''errors'')
         = concat (map (\<lambda>r. list_field r (lit ''errors'')) (list_field p (lit ''runs'')))"

subsection \<open>Example inputs\<close>

text \<open>
  A Unicode database and a clock for examples. The example strings are ASCII, so the
  entries of the database are never read. The topics are the one of the end-to-end
  scenario and one without a keyword; the stages are pass-throughs.
\<close>

definition ascii_only :: unicode_db where
  "ascii_only = \<lparr>alnum_db = (\<lambda>c. False), lower_db = (\<lambda>c. [c])\<rparr>"

definition fixed_clock :: clock where
  "fixed_clock = \<lparr>month_year = (\<lambda>k. lit ''November 2026''),
                   isoformat = (\<lambda>k. lit ''2026-11-04T12:00:00'')\<rparr>"

definition vim_topic :: topic where
  "vim_topic = [lit ''id'' \<mapsto> lit ''t1'', lit ''keyword'' \<mapsto> lit ''vim vs vscode'']"

definition no_keyword_topic :: topic where
  "no_keyword_topic = [lit ''id'' \<mapsto> lit ''t2'']"

definition approve_all :: "DraftArticle list \<Rightarrow> exn + DraftArticle list" where
  "approve_all drafts = Inr drafts"

definition publish_all :: "DraftArticle list \<Rightarrow> exn + str list" where
  "publish_all drafts = Inr (map slug drafts)"

section \<open>Properties of the article generator\<close>

subsection \<open>Word counts\<close>

lemma split_acc_space:
  "isspace c \<Longrightarrow> split_acc w (a @ c # b) = split_acc w a @ split_acc [] b"
  by (induction a arbitrary: w) auto

lemma isspace_newline: "isspace 10"
  by (simp add: isspace_def)

lemma length_split_padding: "length (str_split padding) = 44"
  apply (simp add: padding_def lit_def)
  apply (simp add: str_split_def isspace_def)
  done

lemma split_append_padding:
  "str_split (append_padding c) = str_split c @ str_split padding"
proof -
  have "append_padding c = c @ 10 # (10 # padding)"
    by (simp add: append_padding_def lit_def)
  then have "str_split (append_padding c) = str_split c @ split_acc [] (10 # padding)"
    by (simp add: str_split_def split_acc_space isspace_newline)
  then show ?thesis
    by (simp add: str_split_def isspace_newline)
qed

lemma words_append_padding:
  "length (str_split (append_padding c)) = length (str_split c) + 44"
  by (simp add: split_append_padding length_split_padding)

subsection \<open>The padding loop\<close>

text \<open>
  A loop that starts at most \<open>44 * k\<close> words short ends after at most \<open>k\<close> rounds, with
  the text the rounds built; no earlier round had reached the minimum.
\<close>

lemma pad_loop_rounds:
  "MIN_WORDS - length (str_split c) \<le> 44 * k \<Longrightarrow>
   \<exists>n\<le>k. pad_loop c (str_split c) = Some ((append_padding ^^ n) c)
     \<and> MIN_WORDS \<le> length (str_split ((append_padding ^^ n) c))
     \<and> (\<forall>m<n. length (str_split ((append_padding ^^ m) c)) < MIN_WORDS)"
proof (induction k arbitrary: c)
  case 0
  then have "\<not> length (str_split c) < MIN_WORDS" by simp
  then have "pad_loop c (str_split c) = Some c"
    by (subst pad_loop.simps) simp
  with 0 show ?case by simp
next
  case (Suc k)
  show ?case
  proof (cases "length (str_split c) < MIN_WORDS")
    case False
    then have "pad_loop c (str_split c) = Some c"
      by (subst pad_loop.simps) simp
    with False show ?thesis by (intro exI [of _ 0]) simp
  next
    case True
    let ?c = "append_padding c"
    from Suc.prems have "MIN_WORDS - length (str_split ?c) \<le> 44 * k"
      by (simp add: words_append_padding)
    from Suc.IH [OF this] obtain n where n: "n \<le> k"
      "pad_loop ?c (str_split ?c) = Some ((append_padding ^^ n) ?c)"
      "MIN_WORDS \<le> length (str_split ((append_padding ^^ n) ?c))"
      "\<forall>m<n. length (str_split ((append_padding ^^ m) ?c)) < MIN_WORDS"
      by blast
    have step: "pad_loop c (str_split c) = pad_loop ?c (str_split ?c)"
      using True by (subst pad_loop.simps) simp
    have shift: "(append_padding ^^ m) ?c = (append_padding ^^ Suc m) c" for m
      by (simp add: funpow_swap1)
    have "\<forall>m<Suc n. length (str_split ((append_padding ^^ m) c)) < MIN_WORDS"
    proof (intro allI impI)
      fix m assume "m < Suc n"
      show "length (str_split ((append_padding ^^ m) c)) < MIN_WORDS"
      proof (cases m)
        case 0
        with True show ?thesis by simp
      next
        case (Suc j)
        with \<open>m < Suc n\<close> have "j < n" by simp
        with n(4) have "length (str_split ((append_padding ^^ j) ?c)) < MIN_WORDS"
          by blast
        then show ?thesis unfolding shift Suc .
      qed
    qed
    with n step show ?thesis
      unfolding shift by (intro exI [of _ "Suc n"]) simp
  qed
qed

lemma pad_loop_returns:
  "\<exists>n\<le>28. pad_loop c (str_split c) = Some ((append_padding ^^ n) c)
     \<and> MIN_WORDS \<le> length (str_split ((append_padding ^^ n) c))"
proof -
  have "MIN_WORDS - length (str_split c) \<le> 44 * 28"
    by (simp add: MIN_WORDS_def)
  from pad_loop_rounds [OF this] show ?thesis by blast
qed

lemma generate_returns:
  "\<exists>n\<le>28. generate_long_form_article now keyword category intent
       = Some ((append_padding ^^ n) (compose keyword now))
     \<and> MIN_WORDS \<le> length (str_split ((append_padding ^^ n) (compose keyword now)))"
proof (cases "length (str_split (compose keyword now)) < MIN_WORDS")
  case True
  then show ?thesis
    using pad_loop_returns [of "compose keyword now"]
    by (simp add: generate_long_form_article_def Let_def)
next
  case False
  then show ?thesis
    by (intro exI [of _ 0]) (simp add: generate_long_form_article_def Let_def)
qed

text \<open>
  C1. For every non-empty keyword, the generator called with empty category and intent
  returns a text, and the text has at least 1200 whitespace-delimited words.
\<close>

theorem generate_min_words:
  "keyword \<noteq> [] \<Longrightarrow>
   \<exists>text. generate_long_form_article now keyword [] [] = Some text
     \<and> MIN_WORDS \<le> length (str_split text) \<and> MIN_WORDS = 1200"
  using generate_returns [of now keyword "[]" "[]"] by (auto simp: MIN_WORDS_def)

theorem generate_min_words_witness:
  "lit ''vim vs vscode'' \<noteq> []
   \<and> (\<exists>text. generate_long_form_article (lit ''November 2026'') (lit ''vim vs vscode'') [] []
          = Some text
        \<and> MIN_WORDS \<le> length (str_split text) \<and> MIN_WORDS = 1200)"
  using generate_min_words [of "lit ''vim vs vscode''" "lit ''November 2026''"]
  by (simp add: lit_def)

text \<open>
  C9. The padding sentence has 44 words, so every round of the loop adds 44 words: from
  any text the loop returns after at most 28 rounds, and so does the generator for every
  keyword, category and intent, with the composed document padded that many times.
\<close>

theorem padding_loop_terminates:
  "length (str_split padding) = 44
   \<and> (\<exists>n\<le>28. pad_loop c (str_split c) = Some ((append_padding ^^ n) c))
   \<and> (\<exists>n\<le>28. generate_long_form_article now keyword category intent
          = Some ((append_padding ^^ n) (compose keyword now)))"
  using length_split_padding pad_loop_returns [of c]
    generate_returns [of now keyword category intent]
  by blast

text \<open>
  C10. With the reference time fixed, the text depends on the keyword only: for a
  reference time and a keyword there is one text that every call returns, whatever the
  category and the intent.
\<close>

theorem output_determined_by_keyword:
  "\<exists>text. \<forall>category intent.
     generate_long_form_article now keyword category intent = Some text"
proof -
  obtain n where
    "generate_long_form_article now keyword [] []
       = Some ((append_padding ^^ n) (compose keyword now))"
    using generate_returns by blast
  moreover have "generate_long_form_article now keyword category intent
      = generate_long_form_article now keyword [] []" for category intent
    by (simp add: generate_long_form_article_def)
  ultimately have "\<forall>category intent.
      generate_long_form_article now keyword category intent
        = Some ((append_padding ^^ n) (compose keyword now))"
    by simp
  then show ?thesis by (rule exI)
qed

section \<open>Properties of the content stage\<close>

subsection \<open>Slugs\<close>

lemma lit_hyphen: "lit ''-'' = [45]"
  by (simp add: lit_def)

text \<open>What holds of every slug: it has at most 80 characters, no two hyphens in a row
  and no hyphen in front.\<close>

lemma slugify_length: "length (slugify U s) \<le> 80"
  by (simp add: slugify_def Let_def)

lemma contains_double_hyphen_iff:
  "contains_double_hyphen s \<longleftrightarrow> (\<exists>xs ys. s = xs @ 45 # 45 # ys)"
proof (induction s rule: contains_double_hyphen.induct)
  case (1 a b s)
  show ?case
  proof
    assume "contains_double_hyphen (a # b # s)"
    then consider "a = 45 \<and> b = 45" | "contains_double_hyphen (b # s)" by auto
    then show "\<exists>xs ys. a # b # s = xs @ 45 # 45 # ys"
    proof cases
      case 1
      then have "a # b # s = [] @ 45 # 45 # s" by simp
      then show ?thesis by blast
    next
      case 2
      with "1.IH" obtain xs ys where "b # s = xs @ 45 # 45 # ys" by blast
      then have "a # b # s = (a # xs) @ 45 # 45 # ys" by simp
      then show ?thesis by blast
    qed
  next
    assume "\<exists>xs ys. a # b # s = xs @ 45 # 45 # ys"
    then obtain xs ys where eq: "a # b # s = xs @ 45 # 45 # ys" by blast
    show "contains_double_hyphen (a # b # s)"
    proof (cases xs)
      case Nil
      with eq show ?thesis by simp
    next
      case (Cons x xs')
      with eq have "b # s = xs' @ 45 # 45 # ys" by simp
      with "1.IH" have "contains_double_hyphen (b # s)" by blast
      then show ?thesis by simp
    qed
  qed
qed (simp_all add: Cons_eq_append_conv)

lemma no_double_hyphen_part:
  assumes "\<not> contains_double_hyphen (p @ t @ q)"
  shows "\<not> contains_double_hyphen t"
proof
  assume "contains_double_hyphen t"
  then obtain xs ys where "t = xs @ 45 # 45 # ys"
    unfolding contains_double_hyphen_iff by blast
  then have "p @ t @ q = (p @ xs) @ 45 # 45 # (ys @ q)" by simp
  then have "contains_double_hyphen (p @ t @ q)"
    unfolding contains_double_hyphen_iff by blast
  with assms show False by simp
qed

lemma collapse_hyphens_no_double: "\<not> contains_double_hyphen (collapse_hyphens s)"
proof (induction s rule: collapse_hyphens.induct)
  case (1 slug)
  show ?case
  proof (cases "contains_double_hyphen slug")
    case True
    then have "collapse_hyphens slug = collapse_hyphens (replace_double_hyphen slug)"
      by (subst collapse_hyphens.simps) simp
    with "1.IH" [OF True] show ?thesis by simp
  next
    case False
    then have "collapse_hyphens slug = slug"
      by (subst collapse_hyphens.simps) simp
    with False show ?thesis by simp
  qed
qed

lemma rev_dropWhile_rev:
  "\<exists>b. y = rev (dropWhile P (rev y)) @ b"
proof -
  have "y = rev (takeWhile P (rev y) @ dropWhile P (rev y))" by simp
  also have "\<dots> = rev (dropWhile P (rev y)) @ rev (takeWhile P (rev y))"
    by (rule rev_append)
  finally show ?thesis by blast
qed

lemma strip_chars_decompose:
  "\<exists>p q. s = p @ strip_chars chars s @ q
     \<and> (strip_chars chars s \<noteq> [] \<longrightarrow> hd (strip_chars chars s) \<notin> set chars)"
proof -
  define P where "P = (\<lambda>c. c \<in> set chars)"
  define y where "y = dropWhile P s"
  define a where "a = rev (dropWhile P (rev y))"
  obtain b where y: "y = a @ b"
    unfolding a_def using rev_dropWhile_rev by blast
  have "s = takeWhile P s @ y"
    by (simp add: y_def)
  with y have s: "s = takeWhile P s @ a @ b" by simp
  have "hd a \<notin> set chars" if "a \<noteq> []"
  proof -
    from that y have "hd a = hd y" by simp
    moreover from that y have "y \<noteq> []" by simp
    then have "\<not> P (hd y)" unfolding y_def by (rule hd_dropWhile)
    ultimately show ?thesis by (simp add: P_def)
  qed
  moreover have "strip_chars chars s = a"
    by (simp add: strip_chars_def a_def y_def P_def)
  ultimately show ?thesis using s by blast
qed

lemma slugify_no_double_hyphen: "\<not> contains_double_hyphen (slugify U s)"
proof -
  define c where
    "c = collapse_hyphens (concat (map (\<lambda>c. if isalnum U c then lower U c else lit ''-'') s))"
  define t where "t = strip_chars (lit ''-'') c"
  obtain p q where "c = p @ t @ q"
    unfolding t_def using strip_chars_decompose by blast
  also have "p @ t @ q = p @ (take 80 t @ drop 80 t) @ q"
    by (simp only: append_take_drop_id)
  also have "\<dots> = p @ take 80 t @ (drop 80 t @ q)"
    by (simp only: append_assoc)
  finally have "c = p @ take 80 t @ (drop 80 t @ q)" .
  moreover have "\<not> contains_double_hyphen c"
    unfolding c_def by (rule collapse_hyphens_no_double)
  ultimately have "\<not> contains_double_hyphen (p @ take 80 t @ (drop 80 t @ q))"
    by simp
  then have "\<not> contains_double_hyphen (take 80 t)"
    by (rule no_double_hyphen_part)
  then show ?thesis by (simp add: slugify_def Let_def t_def c_def)
qed

lemma slugify_no_leading_hyphen:
  assumes "slugify U s \<noteq> []"
  shows "hd (slugify U s) \<noteq> 45"
proof -
  let ?c = "collapse_hyphens (concat (map (\<lambda>c. if isalnum U c then lower U c else lit ''-'') s))"
  let ?t = "strip_chars (lit ''-'') ?c"
  have eq: "slugify U s = take 80 ?t" by (simp add: slugify_def Let_def)
  with assms have ne: "?t \<noteq> []" by auto
  with strip_chars_decompose [of ?c "lit ''-''"] have "hd ?t \<notin> set (lit ''-'')" by blast
  then have "hd ?t \<noteq> 45" by (simp add: lit_hyphen)
  moreover from ne have "hd (take 80 ?t) = hd ?t" by (cases ?t) simp_all
  ultimately show ?thesis by (simp add: eq)
qed

text \<open>Two slugs: the keyword of the end-to-end scenario, and a keyword whose slug is cut
  right after a hyphen.\<close>

lemma slugify_short_keyword: "slugify U (lit ''vim vs vscode'') = lit ''vim-vs-vscode''"
  apply (simp add: lit_def split del: if_split)
  apply (simp add: slugify_def lit_hyphen Let_def isalnum_def lower_def strip_chars_def
      collapse_hyphens.simps split del: if_split)
  done


lemma slugify_long_keyword:
  "slugify U (lit ''how to migrate a legacy jenkins pipeline to github actions without breaking the build'')
     = lit ''how-to-migrate-a-legacy-jenkins-pipeline-to-github-actions-without-breaking-the-''"
  apply (simp add: lit_def split del: if_split)
  apply (simp add: slugify_def lit_hyphen Let_def isalnum_def lower_def strip_chars_def
      collapse_hyphens.simps split del: if_split)
  done

lemma slugify_truncated_slug:
  "slugify U (lit ''how-to-migrate-a-legacy-jenkins-pipeline-to-github-actions-without-breaking-the-'')
     = lit ''how-to-migrate-a-legacy-jenkins-pipeline-to-github-actions-without-breaking-the''"
  apply (simp add: lit_def split del: if_split)
  apply (simp add: slugify_def lit_hyphen Let_def isalnum_def lower_def strip_chars_def
      collapse_hyphens.simps split del: if_split)
  done

text \<open>
  C3. The slug is cut to 80 characters after the hyphens at its ends were removed, so a
  keyword whose slug has a hyphen as its 80th character gets a slug that ends with a
  hyphen. For this keyword of 85 characters the slug is 80 characters long and its last
  character is the hyphen (code point 45).
\<close>

theorem slug_ends_with_hyphen:
  "slugify U (lit ''how to migrate a legacy jenkins pipeline to github actions without breaking the build'')
     = lit ''how-to-migrate-a-legacy-jenkins-pipeline-to-github-actions-without-breaking-the-''
   \<and> last (slugify U (lit ''how to migrate a legacy jenkins pipeline to github actions without breaking the build''))
     = 45"
  unfolding slugify_long_keyword by (simp add: lit_def)

text \<open>
  C4. The slug of that keyword is not a fixed point: deriving the slug of the slug
  removes the trailing hyphen and gives a string of 79 characters.
\<close>

theorem slugify_not_idempotent:
  "slugify U (slugify U (lit ''how to migrate a legacy jenkins pipeline to github actions without breaking the build''))
     = lit ''how-to-migrate-a-legacy-jenkins-pipeline-to-github-actions-without-breaking-the''
   \<and> slugify U (slugify U (lit ''how to migrate a legacy jenkins pipeline to github actions without breaking the build''))
     \<noteq> slugify U (lit ''how to migrate a legacy jenkins pipeline to github actions without breaking the build'')"
  unfolding slugify_long_keyword slugify_truncated_slug by (simp add: lit_def)


subsection \<open>Drafts\<close>

lemma make_draft_returns:
  assumes "t (lit ''keyword'') = Some kw" and "t (lit ''id'') = Some i"
  shows "\<exists>d. make_draft U clk k t = Return d \<and> topic_id d = i \<and> title d = kw
           \<and> slug d = slugify U kw"
proof -
  obtain article where "generate_long_form_article (month_year clk k) kw
      (get_or_empty t (lit ''category'')) (get_or_empty t (lit ''intent'')) = Some article"
    using generate_returns by blast
  with assms show ?thesis by (simp add: make_draft_def Let_def)
qed

lemma make_draft_raises:
  assumes "t (lit ''id'') = None \<or> t (lit ''keyword'') = None"
  shows "make_draft U clk k t = Raise (KeyError (lit ''keyword''))
         \<or> make_draft U clk k t = Raise (KeyError (lit ''id''))"
proof (cases "t (lit ''keyword'')")
  case None
  then show ?thesis by (simp add: make_draft_def)
next
  case (Some kw)
  with assms have noid: "t (lit ''id'') = None" by simp
  obtain article where "generate_long_form_article (month_year clk k) kw
      (get_or_empty t (lit ''category'')) (get_or_empty t (lit ''intent'')) = Some article"
    using generate_returns by blast
  with Some noid show ?thesis by (simp add: make_draft_def Let_def)
qed

lemma run_loop_returns:
  assumes "\<forall>t\<in>set topics. t (lit ''id'') \<noteq> None \<and> t (lit ''keyword'') \<noteq> None"
  shows "\<exists>ds. run_loop U clk k acc topics = Return (acc @ ds)
           \<and> map (\<lambda>d. Some (topic_id d)) ds = map (\<lambda>t. t (lit ''id'')) topics
           \<and> map (\<lambda>d. Some (title d)) ds = map (\<lambda>t. t (lit ''keyword'')) topics"
  using assms
proof (induction topics arbitrary: k acc)
  case Nil
  then show ?case by simp
next
  case (Cons t topics)
  from Cons.prems obtain kw i where t: "t (lit ''keyword'') = Some kw" "t (lit ''id'') = Some i"
    by auto
  from make_draft_returns [OF t] obtain d where d:
    "make_draft U clk k t = Return d" "topic_id d = i" "title d = kw"
    by blast
  from Cons.prems have "\<forall>t\<in>set topics. t (lit ''id'') \<noteq> None \<and> t (lit ''keyword'') \<noteq> None"
    by simp
  from Cons.IH [OF this, of "k + 2" "acc @ [d]"] obtain ds where ds:
    "run_loop U clk (k + 2) (acc @ [d]) topics = Return ((acc @ [d]) @ ds)"
    "map (\<lambda>d. Some (topic_id d)) ds = map (\<lambda>t. t (lit ''id'')) topics"
    "map (\<lambda>d. Some (title d)) ds = map (\<lambda>t. t (lit ''keyword'')) topics"
    by blast
  show ?case
    using d ds t by (intro exI [of _ "d # ds"]) simp
qed

lemma run_loop_raises:
  assumes "\<exists>t\<in>set topics. t (lit ''id'') = None \<or> t (lit ''keyword'') = None"
  shows "run_loop U clk k acc topics = Raise (KeyError (lit ''keyword''))
         \<or> run_loop U clk k acc topics = Raise (KeyError (lit ''id''))"
  using assms
proof (induction topics arbitrary: k acc)
  case Nil
  then show ?case by simp
next
  case (Cons t topics)
  show ?case
  proof (cases "t (lit ''id'') = None \<or> t (lit ''keyword'') = None")
    case True
    from make_draft_raises [OF this, of U clk k] show ?thesis by auto
  next
    case False
    then obtain kw i where t: "t (lit ''keyword'') = Some kw" "t (lit ''id'') = Some i"
      by auto
    from make_draft_returns [OF t] obtain d where d: "make_draft U clk k t = Return d"
      by blast
    from Cons.prems False
    have "\<exists>t\<in>set topics. t (lit ''id'') = None \<or> t (lit ''keyword'') = None"
      by auto
    from Cons.IH [OF this, of "k + 2" "acc @ [d]"] d show ?thesis by simp
  qed
qed

lemma run_loop_no_diverge: "run_loop U clk k acc topics \<noteq> Diverge"
proof (induction topics arbitrary: k acc)
  case Nil
  then show ?case by simp
next
  case (Cons t topics)
  show ?case
  proof (cases "t (lit ''id'') = None \<or> t (lit ''keyword'') = None")
    case True
    from make_draft_raises [OF this, of U clk k] show ?thesis by auto
  next
    case False
    then obtain kw i where t: "t (lit ''keyword'') = Some kw" "t (lit ''id'') = Some i"
      by auto
    from make_draft_returns [OF t] obtain d where d: "make_draft U clk k t = Return d"
      by blast
    with Cons.IH [of "k + 2" "acc @ [d]"] show ?thesis by simp
  qed
qed

text \<open>
  C5. For topics that all have an id and a keyword, the content stage returns one draft
  per topic, in the order of the topics, and each draft carries the id of its topic.
\<close>

theorem run_preserves_order_and_count:
  assumes "\<forall>t\<in>set topics. t (lit ''id'') \<noteq> None \<and> t (lit ''keyword'') \<noteq> None"
  shows "\<exists>drafts. run U clk k topics = Return drafts
     \<and> length drafts = length topics
     \<and> map (\<lambda>d. Some (topic_id d)) drafts = map (\<lambda>t. t (lit ''id'')) topics"
proof -
  from run_loop_returns [OF assms, of U clk k "[]"] obtain ds where ds:
    "run_loop U clk k [] topics = Return ([] @ ds)"
    "map (\<lambda>d. Some (topic_id d)) ds = map (\<lambda>t. t (lit ''id'')) topics"
    by blast
  from ds(2) have "length ds = length topics"
    by (rule map_eq_imp_length_eq)
  with ds show ?thesis by (simp add: run_def)
qed

lemma example_keys:
  "lit ''id'' \<noteq> lit ''keyword''" "lit ''keyword'' \<noteq> lit ''id''"
  by (simp_all add: lit_def)

theorem run_preserves_order_and_count_witness:
  "vim_topic (lit ''id'') \<noteq> None \<and> vim_topic (lit ''keyword'') \<noteq> None
   \<and> (vim_topic(lit ''id'' \<mapsto> lit ''t3'')) (lit ''keyword'') \<noteq> None
   \<and> (\<exists>drafts. run ascii_only fixed_clock 0 [vim_topic, vim_topic(lit ''id'' \<mapsto> lit ''t3'')]
          = Return drafts
        \<and> length drafts = 2
        \<and> map (\<lambda>d. Some (topic_id d)) drafts = [Some (lit ''t1''), Some (lit ''t3'')])"
proof -
  let ?topics = "[vim_topic, vim_topic(lit ''id'' \<mapsto> lit ''t3'')]"
  have h: "vim_topic (lit ''id'') \<noteq> None" "vim_topic (lit ''keyword'') \<noteq> None"
    "(vim_topic(lit ''id'' \<mapsto> lit ''t3'')) (lit ''keyword'') \<noteq> None"
    by (simp_all add: vim_topic_def example_keys)
  then have "\<forall>t\<in>set ?topics. t (lit ''id'') \<noteq> None \<and> t (lit ''keyword'') \<noteq> None"
    by simp
  from run_preserves_order_and_count [OF this, of ascii_only fixed_clock 0]
  obtain drafts where d: "run ascii_only fixed_clock 0 ?topics = Return drafts"
    "length drafts = length ?topics"
    "map (\<lambda>d. Some (topic_id d)) drafts = map (\<lambda>t. t (lit ''id'')) ?topics"
    by blast
  from d(2) have "length drafts = 2" by simp
  moreover from d(3) have "map (\<lambda>d. Some (topic_id d)) drafts = [Some (lit ''t1''), Some (lit ''t3'')]"
    by (simp add: vim_topic_def example_keys)
  ultimately show ?thesis using d(1) h
    by (intro conjI exI [of _ drafts]) simp_all
qed

section \<open>Properties of the orchestrator\<close>

subsection \<open>The finally block on a well-formed ledger\<close>

lemma map_of_setitem: "map_of (setitem d key v) = (map_of d)(key \<mapsto> v)"
  by (induction d key v rule: setitem.induct) auto

lemma ledger_keys_distinct:
  "lit ''runs'' \<noteq> lit ''last_run''" "lit ''runs'' \<noteq> lit ''articles_published''"
  "lit ''runs'' \<noteq> lit ''errors''" "lit ''last_run'' \<noteq> lit ''articles_published''"
  "lit ''last_run'' \<noteq> lit ''errors''" "lit ''articles_published'' \<noteq> lit ''errors''"
  by (simp_all add: lit_def)

lemma has_dict:
  "has P (PDict d) key \<longleftrightarrow> (\<exists>x. map_of d key = Some x \<and> P x)"
  by (simp add: has_def field_def split: option.splits)

lemma is_ledgerE:
  assumes "is_ledger p"
  obtains d rs a es l where "p = PDict d"
    "map_of d (lit ''runs'') = Some (PList rs)" "list_all is_run_entry rs"
    "map_of d (lit ''articles_published'') = Some (PInt a)"
    "map_of d (lit ''last_run'') = Some l" "is_str_or_none l"
    "map_of d (lit ''errors'') = Some (PList es)" "list_all is_str es"
proof -
  from assms obtain d where p: "p = PDict d"
    by (cases p) (simp_all add: is_ledger_def has_def field_def)
  from assms obtain r a' l e where f:
    "map_of d (lit ''runs'') = Some r" "is_entry_list r"
    "map_of d (lit ''articles_published'') = Some a'" "is_int a'"
    "map_of d (lit ''last_run'') = Some l" "is_str_or_none l"
    "map_of d (lit ''errors'') = Some e" "is_str_list e"
    unfolding p is_ledger_def has_dict by blast
  from f(2) obtain rs where "r = PList rs" "list_all is_run_entry rs" by (cases r) simp_all
  moreover from f(4) obtain a where "a' = PInt a" by (cases a') simp_all
  moreover from f(8) obtain es where "e = PList es" "list_all is_str es" by (cases e) simp_all
  ultimately show ?thesis using that p f by blast
qed

lemma entry_dict_fields:
  "is_run_entry (entry_dict e)"
  "int_field (entry_dict e) (lit ''published_articles'') = int (published_articles e)"
  "list_field (entry_dict e) (lit ''errors'') = map PStr (errors e)"
  by (simp_all add: is_run_entry_def has_def field_def int_field_def list_field_def
      entry_dict_def lit_def list_all_iff)

lemma finalize_ledger:
  assumes "is_ledger p"
  shows "\<exists>p'. finalize p e = Inr p' \<and> is_ledger p'
     \<and> list_field p' (lit ''runs'') = list_field p (lit ''runs'') @ [entry_dict e]
     \<and> int_field p' (lit ''articles_published'')
         = int_field p (lit ''articles_published'') + int (published_articles e)
     \<and> field p' (lit ''last_run'') = Some (PStr (timestamp e))
     \<and> list_field p' (lit ''errors'') = list_field p (lit ''errors'') @ map PStr (errors e)"
proof -
  from assms obtain d rs a es l where p: "p = PDict d"
    and f: "map_of d (lit ''runs'') = Some (PList rs)" "list_all is_run_entry rs"
    "map_of d (lit ''articles_published'') = Some (PInt a)"
    "map_of d (lit ''last_run'') = Some l" "is_str_or_none l"
    "map_of d (lit ''errors'') = Some (PList es)" "list_all is_str es"
    by (rule is_ledgerE)
  let ?d = "setitem (setitem (setitem (setitem d (lit ''runs'') (PList (rs @ [entry_dict e])))
      (lit ''last_run'') (PStr (timestamp e)))
      (lit ''articles_published'') (PInt (a + int (published_articles e))))
      (lit ''errors'') (PList (es @ map PStr (errors e)))"
  have fin: "finalize p e = Inr (PDict ?d)"
    using f ledger_keys_distinct
    by (simp add: finalize_def p Let_def get_default_def map_of_setitem)
  have "is_ledger (PDict ?d)"
    using f ledger_keys_distinct entry_dict_fields(1) [of e]
    by (auto simp: is_ledger_def has_dict map_of_setitem list_all_iff)
  moreover have "list_field (PDict ?d) (lit ''runs'') = list_field p (lit ''runs'') @ [entry_dict e]"
    "int_field (PDict ?d) (lit ''articles_published'')
       = int_field p (lit ''articles_published'') + int (published_articles e)"
    "field (PDict ?d) (lit ''last_run'') = Some (PStr (timestamp e))"
    "list_field (PDict ?d) (lit ''errors'') = list_field p (lit ''errors'') @ map PStr (errors e)"
    using f ledger_keys_distinct
    by (simp_all add: p list_field_def int_field_def field_def map_of_setitem)
  ultimately show ?thesis using fin by blast
qed

lemma stages_returns:
  "\<exists>e' x. stages U clk discovery validation distribution e = Some (e', x)
     \<and> timestamp e' = timestamp e"
proof (cases discovery)
  case (Inl x)
  then show ?thesis by (simp add: stages_def)
next
  case (Inr new_topics)
  have "run U clk 1 new_topics \<noteq> Diverge"
    by (simp add: run_def run_loop_no_diverge)
  with Inr show ?thesis
    by (auto simp: stages_def Let_def split: outcome.splits sum.splits)
qed

lemma handle_timestamp: "handle (e, x) = (e', x') \<Longrightarrow> timestamp e' = timestamp e"
  by (auto simp: handle_def split: option.splits)

lemma run_pipeline_finalizes:
  assumes "is_ledger (load_performance (ensure_initial_files file))"
  shows "\<exists>r p'. run_pipeline U clk file discovery validation distribution = Some r
     \<and> saved r = Some p' \<and> is_ledger p'
     \<and> timestamp (entry r) = isoformat clk 0 @ lit ''Z''
     \<and> list_field p' (lit ''runs'')
         = list_field (load_performance (ensure_initial_files file)) (lit ''runs'')
           @ [entry_dict (entry r)]
     \<and> int_field p' (lit ''articles_published'')
         = int_field (load_performance (ensure_initial_files file)) (lit ''articles_published'')
           + int (published_articles (entry r))
     \<and> field p' (lit ''last_run'') = Some (PStr (timestamp (entry r)))
     \<and> list_field p' (lit ''errors'')
         = list_field (load_performance (ensure_initial_files file)) (lit ''errors'')
           @ map PStr (errors (entry r))"
proof -
  let ?p = "load_performance (ensure_initial_files file)"
  let ?e0 = "\<lparr>timestamp = isoformat clk 0 @ lit ''Z'', status = lit ''started'',
    generated_topics = 0, generated_articles = 0, published_articles = 0, errors = []\<rparr>"
  obtain e1 x where s: "stages U clk discovery validation distribution ?e0 = Some (e1, x)"
    "timestamp e1 = timestamp ?e0"
    using stages_returns by blast
  obtain e pending where h: "handle (e1, x) = (e, pending)"
    by (cases "handle (e1, x)")
  from handle_timestamp [OF h] s(2) have ts: "timestamp e = isoformat clk 0 @ lit ''Z''"
    by simp
  from finalize_ledger [OF assms, of e] obtain p' where p':
    "finalize ?p e = Inr p'" "is_ledger p'"
    "list_field p' (lit ''runs'') = list_field ?p (lit ''runs'') @ [entry_dict e]"
    "int_field p' (lit ''articles_published'')
       = int_field ?p (lit ''articles_published'') + int (published_articles e)"
    "field p' (lit ''last_run'') = Some (PStr (timestamp e))"
    "list_field p' (lit ''errors'') = list_field ?p (lit ''errors'') @ map PStr (errors e)"
    by blast
  have "run_pipeline U clk file discovery validation distribution
          = Some \<lparr>entry = e, saved = Some p', raised = map_option Inl pending\<rparr>"
    using s(1) h p'(1) by (simp add: run_pipeline_def Let_def)
  with p' ts show ?thesis by simp
qed

subsection \<open>A malformed topic\<close>

text \<open>
  C6. When some topic lacks the id or the keyword, the content stage raises a KeyError
  for the missing field and returns no draft at all; in the orchestrator the exception
  reaches the handler of the run, which records the run as failed with the error message
  and no generated article.
\<close>

theorem malformed_topic_fails_stage:
  assumes "\<exists>t\<in>set topics. t (lit ''id'') = None \<or> t (lit ''keyword'') = None"
  shows "(\<exists>key. (key = lit ''id'' \<or> key = lit ''keyword'')
            \<and> run U clk k topics = Raise (KeyError key))
     \<and> (\<exists>key r. (key = lit ''id'' \<or> key = lit ''keyword'')
            \<and> run_pipeline U clk file (Inr topics) validation distribution = Some r
            \<and> status (entry r) = lit ''failed''
            \<and> errors (entry r) = [[39] @ key @ [39]]
            \<and> generated_articles (entry r) = 0 \<and> published_articles (entry r) = 0)"
proof
  from run_loop_raises [OF assms, of U clk k "[]"]
  show "\<exists>key. (key = lit ''id'' \<or> key = lit ''keyword'')
            \<and> run U clk k topics = Raise (KeyError key)"
    by (auto simp: run_def)
next
  from run_loop_raises [OF assms, of U clk 1 "[]"]
  obtain key where key: "key = lit ''id'' \<or> key = lit ''keyword''"
    "run U clk 1 topics = Raise (KeyError key)"
    by (auto simp: run_def)
  let ?p = "load_performance (ensure_initial_files file)"
  let ?e = "\<lparr>timestamp = isoformat clk 0 @ lit ''Z'', status = lit ''failed'',
    generated_topics = length topics, generated_articles = 0, published_articles = 0,
    errors = [[39] @ key @ [39]]\<rparr>"
  have "\<exists>r. run_pipeline U clk file (Inr topics) validation distribution = Some r
          \<and> entry r = ?e"
    using key(2)
    by (cases "finalize ?p ?e") (simp_all add: run_pipeline_def stages_def handle_def Let_def)
  with key(1) show "\<exists>key r. (key = lit ''id'' \<or> key = lit ''keyword'')
            \<and> run_pipeline U clk file (Inr topics) validation distribution = Some r
            \<and> status (entry r) = lit ''failed''
            \<and> errors (entry r) = [[39] @ key @ [39]]
            \<and> generated_articles (entry r) = 0 \<and> published_articles (entry r) = 0"
    by force
qed

theorem malformed_topic_fails_stage_witness:
  "no_keyword_topic (lit ''keyword'') = None
   \<and> (\<exists>key. (key = lit ''id'' \<or> key = lit ''keyword'')
         \<and> run ascii_only fixed_clock 1 [vim_topic, no_keyword_topic] = Raise (KeyError key))
   \<and> (\<exists>key r. (key = lit ''id'' \<or> key = lit ''keyword'')
         \<and> run_pipeline ascii_only fixed_clock Absent (Inr [vim_topic, no_keyword_topic])
              approve_all publish_all = Some r
         \<and> status (entry r) = lit ''failed''
         \<and> errors (entry r) = [[39] @ key @ [39]]
         \<and> generated_articles (entry r) = 0 \<and> published_articles (entry r) = 0)"
proof -
  have h: "no_keyword_topic (lit ''keyword'') = None"
    by (simp add: no_keyword_topic_def example_keys)
  then have "\<exists>t\<in>set [vim_topic, no_keyword_topic]. t (lit ''id'') = None \<or> t (lit ''keyword'') = None"
    by simp
  from malformed_topic_fails_stage [OF this, of ascii_only fixed_clock 1 Absent approve_all publish_all] h
  show ?thesis by blast
qed


subsection \<open>Finalization\<close>

text \<open>
  C2. Starting from any well-formed ledger, and whatever the stages do (return or
  raise), the invocation reaches the end of the finally block: the ledger is handed to
  \<^verbatim>\<open>save_performance\<close>, it is well-formed, its runs are the old runs followed by the new
  entry, its counter is the old counter plus the entry's published articles, and its
  last run is the entry's time stamp.
\<close>

theorem finalization_always_runs:
  assumes "is_ledger (load_performance (ensure_initial_files file))"
  shows "\<exists>r p'. run_pipeline U clk file discovery validation distribution = Some r
     \<and> saved r = Some p' \<and> is_ledger p'
     \<and> list_field p' (lit ''runs'')
         = list_field (load_performance (ensure_initial_files file)) (lit ''runs'')
           @ [entry_dict (entry r)]
     \<and> int_field p' (lit ''articles_published'')
         = int_field (load_performance (ensure_initial_files file)) (lit ''articles_published'')
           + int (published_articles (entry r))
     \<and> field p' (lit ''last_run'') = Some (PStr (timestamp (entry r)))"
  using run_pipeline_finalizes [OF assms, of U clk discovery validation distribution]
  by blast

lemma is_ledger_empty: "is_ledger empty_ledger"
  by (simp add: is_ledger_def has_def field_def empty_ledger_def lit_def)

lemma first_run_ledger: "load_performance (ensure_initial_files Absent) = empty_ledger"
  by (simp add: load_performance_def ensure_initial_files_def)

lemma empty_ledger_fields:
  "list_field empty_ledger (lit ''runs'') = []"
  "int_field empty_ledger (lit ''articles_published'') = 0"
  "list_field empty_ledger (lit ''errors'') = []"
  by (simp_all add: list_field_def int_field_def field_def empty_ledger_def lit_def)

theorem finalization_always_runs_witness:
  "is_ledger (load_performance (ensure_initial_files Absent))
   \<and> (\<exists>r p'. run_pipeline ascii_only fixed_clock Absent (Inr [vim_topic, no_keyword_topic])
                approve_all publish_all = Some r
        \<and> saved r = Some p' \<and> is_ledger p'
        \<and> list_field p' (lit ''runs'') = [entry_dict (entry r)]
        \<and> int_field p' (lit ''articles_published'') = int (published_articles (entry r))
        \<and> field p' (lit ''last_run'') = Some (PStr (timestamp (entry r))))"
proof -
  have h: "is_ledger (load_performance (ensure_initial_files Absent))"
    by (simp add: first_run_ledger is_ledger_empty)
  from finalization_always_runs [OF h, of ascii_only fixed_clock
      "Inr [vim_topic, no_keyword_topic]" approve_all publish_all] h
  show ?thesis by (simp add: first_run_ledger empty_ledger_fields)
qed

text \<open>
  C8. The invariant of the ledger is preserved by every invocation: if the loaded ledger
  satisfies it, the saved ledger satisfies it.
\<close>

theorem ledger_invariant_preserved:
  assumes "ledger_inv (load_performance (ensure_initial_files file))"
  shows "\<exists>r p'. run_pipeline U clk file discovery validation distribution = Some r
     \<and> saved r = Some p' \<and> ledger_inv p'"
proof -
  let ?p = "load_performance (ensure_initial_files file)"
  from assms have led: "is_ledger ?p" by (simp add: ledger_inv_def)
  from run_pipeline_finalizes [OF led, of U clk discovery validation distribution]
  obtain r p' where r: "run_pipeline U clk file discovery validation distribution = Some r"
    "saved r = Some p'" "is_ledger p'"
    "list_field p' (lit ''runs'') = list_field ?p (lit ''runs'') @ [entry_dict (entry r)]"
    "int_field p' (lit ''articles_published'')
       = int_field ?p (lit ''articles_published'') + int (published_articles (entry r))"
    "list_field p' (lit ''errors'')
       = list_field ?p (lit ''errors'') @ map PStr (errors (entry r))"
    by blast
  from assms r(3-6) have "ledger_inv p'"
    by (simp add: ledger_inv_def entry_dict_fields)
  with r(1,2) show ?thesis by blast
qed

theorem ledger_invariant_preserved_witness:
  "ledger_inv (load_performance (ensure_initial_files Absent))
   \<and> (\<exists>r p'. run_pipeline ascii_only fixed_clock Absent (Inr [vim_topic]) approve_all publish_all
                = Some r
        \<and> saved r = Some p' \<and> ledger_inv p')"
proof -
  have h: "ledger_inv (load_performance (ensure_initial_files Absent))"
    by (simp add: first_run_ledger ledger_inv_def is_ledger_empty empty_ledger_fields)
  from ledger_invariant_preserved [OF h, of ascii_only fixed_clock "Inr [vim_topic]"
      approve_all publish_all] h
  show ?thesis by blast
qed

subsection \<open>A ledger file of the wrong shape\<close>

text \<open>A file that is absent, unreadable or not JSON gives the empty ledger.\<close>

lemma load_performance_unusable:
  "load_performance (ensure_initial_files Unusable) = empty_ledger"
  "load_performance (ensure_initial_files Absent) = empty_ledger"
  by (simp_all add: load_performance_def ensure_initial_files_def)

text \<open>
  C7. A ledger file holding the JSON object \<^verbatim>\<open>{}\<close> is loaded as it is, not replaced by
  the empty ledger, and the finally block then raises a KeyError for \<^verbatim>\<open>runs\<close>: nothing
  is saved and the exception leaves \<^verbatim>\<open>run_pipeline\<close>, whatever the stages did.
\<close>

theorem ledger_without_runs_is_fatal:
  "load_performance (ensure_initial_files (Json (PDict []))) = PDict []
   \<and> (\<exists>r. run_pipeline U clk (Json (PDict [])) discovery validation distribution = Some r
         \<and> saved r = None
         \<and> raised r = Some (Inr (LedgerKeyError (lit ''runs''))))"
proof -
  let ?e0 = "\<lparr>timestamp = isoformat clk 0 @ lit ''Z'', status = lit ''started'',
    generated_topics = 0, generated_articles = 0, published_articles = 0, errors = []\<rparr>"
  have l: "load_performance (ensure_initial_files (Json (PDict []))) = PDict []"
    by (simp add: load_performance_def ensure_initial_files_def)
  obtain e1 x where s: "stages U clk discovery validation distribution ?e0 = Some (e1, x)"
    using stages_returns by blast
  obtain e pending where h: "handle (e1, x) = (e, pending)"
    by (cases "handle (e1, x)")
  have "finalize (PDict []) e = Inl (LedgerKeyError (lit ''runs''))"
    by (simp add: finalize_def)
  with s h l show ?thesis
    by (simp add: run_pipeline_def Let_def)
qed

end
